theory Spec2Isabelle
  imports Main
begin

section \<open>Strings of the source language\<close>

text \<open>
  A JavaScript string is a sequence of UTF-16 code units. \<open>charCodeAt\<close> reads a code
  unit as a number, so a code unit is modelled by that number. Literals of the source are
  written \<open>js ''...''\<close>.
\<close>

type_synonym code_unit = nat
type_synonym jsstring = "code_unit list"

definition js :: "string \<Rightarrow> jsstring" where
  "js cs = map of_char cs"

text \<open>The character classes of the regular expressions of \<open>CSSPathStep\<close>.\<close>

definition isDigit :: "code_unit \<Rightarrow> bool" where
  "isDigit c = (48 \<le> c \<and> c \<le> 57)"

definition isUpper :: "code_unit \<Rightarrow> bool" where
  "isUpper c = (65 \<le> c \<and> c \<le> 90)"

definition isLower :: "code_unit \<Rightarrow> bool" where
  "isLower c = (97 \<le> c \<and> c \<le> 122)"

text \<open>\<open>[a-zA-Z_]\<close>\<close>

definition isIdentStart :: "code_unit \<Rightarrow> bool" where
  "isIdentStart c = (isLower c \<or> isUpper c \<or> c = 95)"

text \<open>\<open>[a-zA-Z0-9_-]\<close>\<close>

definition isIdentPart :: "code_unit \<Rightarrow> bool" where
  "isIdentPart c = (isLower c \<or> isUpper c \<or> isDigit c \<or> c = 95 \<or> c = 45)"

text \<open>
  The line terminators of ECMAScript (LF, CR, U+2028, U+2029): the code units that
  \<open>.\<close> does not match in a regular expression without the \<open>s\<close> flag.
\<close>

definition isLineTerminator :: "code_unit \<Rightarrow> bool" where
  "isLineTerminator c = (c = 10 \<or> c = 13 \<or> c = 8232 \<or> c = 8233)"

text \<open>
  \<open>\s\<close>: the white space and line terminator code units of ECMAScript.
\<close>

definition isWhiteSpace :: "code_unit \<Rightarrow> bool" where
  "isWhiteSpace c =
     (c = 9 \<or> c = 10 \<or> c = 11 \<or> c = 12 \<or> c = 13 \<or> c = 32 \<or> c = 160 \<or> c = 5760
      \<or> (8192 \<le> c \<and> c \<le> 8202) \<or> c = 8232 \<or> c = 8233 \<or> c = 8239 \<or> c = 8287
      \<or> c = 12288 \<or> c = 65279)"

text \<open>
  \<open>String.prototype.toLowerCase\<close>. Only the ASCII letters are mapped; the case tables of
  Unicode beyond ASCII are not part of this development and such code units are kept.
  The model therefore follows the code on tag names whose cased letters are ASCII; for a
  tag name with another cased letter (U+212A, say) the lowercased text and the same-tag
  test of the code may differ from the ones here.
\<close>

definition toLowerCase :: "jsstring \<Rightarrow> jsstring" where
  "toLowerCase str = map (\<lambda>c. if isUpper c then c + 32 else c) str"

text \<open>\<open>Number.prototype.toString(16)\<close> and \<open>toString(10)\<close> on a non-negative integer.\<close>

definition hexDigit :: "nat \<Rightarrow> code_unit" where
  "hexDigit d = (if d < 10 then 48 + d else 87 + d)"

fun toString16 :: "nat \<Rightarrow> jsstring" where
  "toString16 n = (if n < 16 then [hexDigit n] else toString16 (n div 16) @ [hexDigit (n mod 16)])"

declare toString16.simps [simp del]

fun toString10 :: "nat \<Rightarrow> jsstring" where
  "toString10 n = (if n < 10 then [48 + n] else toString10 (n div 10) @ [48 + n mod 10])"

declare toString10.simps [simp del]

text \<open>The text a template literal gives for an integer: a minus sign for a negative one.\<close>

definition numberToString :: "int \<Rightarrow> jsstring" where
  "numberToString k = (if k < 0 then 45 # toString10 (nat (- k)) else toString10 (nat k))"

text \<open>
  \<open>classAttribute.split(/\s+/g).filter(Boolean)\<close>: the maximal runs of code units that are
  not white space. \<open>splitWs cur str\<close> carries the run read so far.
\<close>

fun splitWs :: "jsstring \<Rightarrow> jsstring \<Rightarrow> jsstring list" where
  "splitWs cur [] = (if cur = [] then [] else [cur])"
| "splitWs cur (c # cs) =
     (if isWhiteSpace c then (if cur = [] then splitWs [] cs else cur # splitWs [] cs)
      else splitWs (cur @ [c]) cs)"

section \<open>Identifier escaping of \<open>CSSPathStep\<close>\<close>

text \<open>\<open>toHexByte\<close>: the code unit in hexadecimal, padded to two digits.\<close>

definition toHexByte :: "code_unit \<Rightarrow> jsstring" where
  "toHexByte c =
     (let hexByte = toString16 c
      in if length hexByte = 1 then 48 # hexByte else hexByte)"

text \<open>\<open>escapeAsciiChar\<close>: a backslash (code unit 92), the hex byte, and a space unless last.\<close>

definition escapeAsciiChar :: "code_unit \<Rightarrow> bool \<Rightarrow> jsstring" where
  "escapeAsciiChar c isLast = 92 # toHexByte c @ (if isLast then [] else [32])"

text \<open>\<open>isCSSIdentChar\<close>: \<open>/[a-zA-Z0-9_-]/.test(c)\<close>, or a code unit from 0xa0 on.\<close>

definition isCSSIdentChar :: "code_unit \<Rightarrow> bool" where
  "isCSSIdentChar c = (if isIdentPart c then True else c \<ge> 160)"

text \<open>
  \<open>isCSSIdentifier\<close>: \<open>/^-?[a-zA-Z_][a-zA-Z0-9_-]*$/.test(value)\<close>. The optional hyphen is
  tried first; when the string starts with a hyphen the other alternative cannot match,
  a hyphen being outside \<open>[a-zA-Z_]\<close>. Without the \<open>m\<close> flag \<open>$\<close> is the end of the input.
\<close>

fun isCSSIdentifier :: "jsstring \<Rightarrow> bool" where
  "isCSSIdentifier [] = False"
| "isCSSIdentifier (c # cs) =
     (if c = 45
      then (case cs of [] \<Rightarrow> False | d # ds \<Rightarrow> isIdentStart d \<and> list_all isIdentPart ds)
      else isIdentStart c \<and> list_all isIdentPart cs)"

text \<open>
  \<open>/^(?:[0-9]|-[0-9-]?)/.test(ident)\<close>: a digit first, or a hyphen first. After the
  hyphen the expression asks for at most one of \<open>[0-9-]\<close>, and the optional part also
  matches nothing, so that nothing is required of what follows the hyphen.
\<close>

fun shouldEscapeFirst :: "jsstring \<Rightarrow> bool" where
  "shouldEscapeFirst [] = False"
| "shouldEscapeFirst (c # cs) = (isDigit c \<or> c = 45)"

text \<open>
  \<open>ident.replace(/./g, f)\<close>: \<open>f\<close> is called with every matched code unit and its offset;
  a line terminator is not matched and stays as it is.
\<close>

fun replaceEach :: "(code_unit \<Rightarrow> int \<Rightarrow> jsstring) \<Rightarrow> int \<Rightarrow> jsstring \<Rightarrow> jsstring" where
  "replaceEach f i [] = []"
| "replaceEach f i (c # cs) =
     (if isLineTerminator c then [c] else f c i) @ replaceEach f (i + 1) cs"

definition escapeIdentifierIfNeeded :: "jsstring \<Rightarrow> jsstring" where
  "escapeIdentifierIfNeeded ident =
     (if isCSSIdentifier ident then ident
      else let escapeFirst = shouldEscapeFirst ident;
               lastIndex = int (length ident) - 1
           in replaceEach
                (\<lambda>c i. if (escapeFirst \<and> i = 0) \<or> \<not> isCSSIdentChar c
                       then escapeAsciiChar c (i = lastIndex)
                       else [c])
                0 ident)"

definition idSelector :: "jsstring \<Rightarrow> jsstring" where
  "idSelector ident = 35 # escapeIdentifierIfNeeded ident"

section \<open>The element tree\<close>

text \<open>
  The DOM is read through node references. A document is a store from references to
  nodes, each with its node type, tag name, attributes, parent link and child list;
  \<open>===\<close> on nodes is equality of references.
\<close>

datatype NodeType =
  ELEMENT_NODE | TEXT_NODE | COMMENT_NODE | DOCUMENT_NODE | DOCUMENT_FRAGMENT_NODE | OTHER_NODE

type_synonym ref = nat

record node =
  nodeType :: NodeType
  tagName :: jsstring
  attributes :: "(jsstring \<times> jsstring) list"
  parentNode :: "ref option"
  childNodes :: "ref list"

type_synonym dom = "ref \<Rightarrow> node"

text \<open>\<open>getAttribute\<close>: the value of the attribute, or null.\<close>

definition getAttribute :: "dom \<Rightarrow> ref \<Rightarrow> jsstring \<Rightarrow> jsstring option" where
  "getAttribute s n name = map_of (attributes (s n)) name"

text \<open>A string or null used as a condition: null and the empty string are false.\<close>

definition truthy :: "jsstring option \<Rightarrow> bool" where
  "truthy a = (case a of None \<Rightarrow> False | Some v \<Rightarrow> v \<noteq> [])"

text \<open>\<open>children\<close>: the child nodes that are elements, in document order.\<close>

definition children :: "dom \<Rightarrow> ref \<Rightarrow> ref list" where
  "children s p = filter (\<lambda>c. nodeType (s c) = ELEMENT_NODE) (childNodes (s p))"

text \<open>\<open>parentElement\<close>: the parent when it is an element, null otherwise.\<close>

definition parentElement :: "dom \<Rightarrow> ref \<Rightarrow> ref option" where
  "parentElement s n =
     (case parentNode (s n) of
        None \<Rightarrow> None
      | Some p \<Rightarrow> if nodeType (s p) = ELEMENT_NODE then Some p else None)"

section \<open>Steps\<close>

datatype error =
  ElementIsNotOne  \<comment> \<open>\<open>Error('Element is not one.')\<close>\<close>
| ChildOfDocumentMustBeHtml  \<comment> \<open>\<open>Error('The child of a Document must be <html></html>')\<close>\<close>
| TypeError  \<comment> \<open>reading a property of null\<close>

text \<open>
  The step classes. The field \<open>value\<close> of the source, a string or null, is \<open>stepValue\<close>
  here. \<open>CSSPathStep\<close> has the two fields of \<open>DOMNodePathStep\<close> and two more.
\<close>

record DOMNodePathStep =
  stepValue :: "jsstring option"
  optimized :: bool

record CSSPathStep = DOMNodePathStep +
  node :: ref
  isTargetNode :: bool

datatype WritingMode = NTH_CHILD | TAGNAME_AND_CLASSNAME

definition isNull :: "'a DOMNodePathStep_scheme \<Rightarrow> bool" where
  "isNull step = (stepValue step = None)"

text \<open>\<open>prefixedElementClassNames\<close>: the class names of a node, each behind a \<open>$\<close>.\<close>

definition prefixedElementClassNames :: "dom \<Rightarrow> ref \<Rightarrow> jsstring list" where
  "prefixedElementClassNames s n =
     (let classAttribute = getAttribute s n (js ''class'')
      in if \<not> truthy classAttribute then []
         else map (\<lambda>name. 36 # name) (splitWs [] (the classAttribute)))"

text \<open>
  \<open>getOptimizedValue\<close>: the optimized step of an element with an \<open>id\<close>, of \<open>html\<close>,
  \<open>head\<close> and \<open>body\<close>, and of an element without parent, tested in this order; then the
  error for a child of the document; null otherwise.
\<close>

definition getOptimizedValue :: "dom \<Rightarrow> ref \<Rightarrow> error + DOMNodePathStep option" where
  "getOptimizedValue s element =
     (let ident = getAttribute s element (js ''id'')
      in if truthy ident
         then Inr (Some \<lparr>stepValue = Some (idSelector (the ident)), optimized = True\<rparr>)
         else let nodeName = toLowerCase (tagName (s element))
              in if nodeName \<in> set [js ''html'', js ''head'', js ''body'']
                 then Inr (Some \<lparr>stepValue = Some nodeName, optimized = True\<rparr>)
                 else (case parentNode (s element) of
                         None \<Rightarrow> Inr (Some \<lparr>stepValue = Some nodeName, optimized = True\<rparr>)
                       | Some parent \<Rightarrow>
                           if nodeType (s parent) = DOCUMENT_NODE
                           then Inl ChildOfDocumentMustBeHtml
                           else Inr None))"

section \<open>Sibling inspection: \<open>getWritingMode\<close>\<close>

text \<open>The variables of the sibling loop.\<close>

record scan =
  needsNthChild :: bool
  ownIndex :: int
  elementIndex :: int
  prefixedOwnClassNames :: "jsstring list"

text \<open>
  The inner loop over \<open>siblingClassNamesArray\<close>. \<open>splice(indexOf(siblingClass), 1)\<close>
  removes the first occurrence; \<open>ownClassNameCount\<close> is decremented before it is tested,
  and the loop is left when it reaches zero.
\<close>

fun eliminateClasses :: "jsstring list \<Rightarrow> scan \<Rightarrow> int \<Rightarrow> scan" where
  "eliminateClasses [] st ownClassNameCount = st"
| "eliminateClasses (siblingClass # rest) st ownClassNameCount =
     (if siblingClass \<notin> set (prefixedOwnClassNames st)
      then eliminateClasses rest st ownClassNameCount
      else if ownClassNameCount - 1 = 0
      then st\<lparr>prefixedOwnClassNames := remove1 siblingClass (prefixedOwnClassNames st),
              needsNthChild := True\<rparr>
      else eliminateClasses rest
             (st\<lparr>prefixedOwnClassNames := remove1 siblingClass (prefixedOwnClassNames st)\<rparr>)
             (ownClassNameCount - 1))"

text \<open>
  The loop over \<open>siblings\<close>, as a recursion over the siblings not yet visited. The loop
  condition \<open>ownIndex === -1 || !needsNthChild\<close> is tested before each sibling.
\<close>

fun scanSiblings :: "dom \<Rightarrow> ref \<Rightarrow> jsstring \<Rightarrow> ref list \<Rightarrow> scan \<Rightarrow> scan" where
  "scanSiblings s self nodeName [] st = st"
| "scanSiblings s self nodeName (sibling # rest) st =
     (if \<not> (ownIndex st = - 1 \<or> \<not> needsNthChild st) then st
      else if nodeType (s sibling) \<noteq> ELEMENT_NODE then scanSiblings s self nodeName rest st
      else if sibling = self
      then scanSiblings s self nodeName rest
             (st\<lparr>elementIndex := elementIndex st + 1, ownIndex := elementIndex st + 1\<rparr>)
      else if needsNthChild st
      then scanSiblings s self nodeName rest (st\<lparr>elementIndex := elementIndex st + 1\<rparr>)
      else if toLowerCase (tagName (s sibling)) \<noteq> nodeName
      then scanSiblings s self nodeName rest (st\<lparr>elementIndex := elementIndex st + 1\<rparr>)
      else if length (prefixedOwnClassNames st) = 0
      then scanSiblings s self nodeName rest
             (st\<lparr>elementIndex := elementIndex st + 1, needsNthChild := True\<rparr>)
      else scanSiblings s self nodeName rest
             (eliminateClasses (prefixedElementClassNames s sibling)
                (st\<lparr>elementIndex := elementIndex st + 1\<rparr>)
                (int (length (prefixedOwnClassNames st)))))"

record WritingModeResult =
  mode :: WritingMode
  index :: int
  ownClassNames :: "jsstring list"

text \<open>
  \<open>getWritingMode\<close>. The parent is read with a cast and no test:
  \<open>(this.node.parentNode as ParentNode).children\<close> raises a TypeError on a null parent.
\<close>

definition getWritingMode :: "dom \<Rightarrow> ref \<Rightarrow> error + WritingModeResult" where
  "getWritingMode s self =
     (let nodeName = toLowerCase (tagName (s self));
          initial = \<lparr>needsNthChild = False, ownIndex = - 1, elementIndex = - 1,
                     prefixedOwnClassNames = prefixedElementClassNames s self\<rparr>
      in case parentNode (s self) of
           None \<Rightarrow> Inl TypeError
         | Some parent \<Rightarrow>
             (let st = scanSiblings s self nodeName (children s parent) initial
              in Inr \<lparr>mode = (if needsNthChild st then NTH_CHILD else TAGNAME_AND_CLASSNAME),
                      index = ownIndex st,
                      ownClassNames = prefixedOwnClassNames st\<rparr>))"

section \<open>Fragment construction: \<open>computeStep\<close>\<close>

text \<open>
  What the condition on \<open>isTargetNode\<close> in \<open>computeStep\<close> appends to the tag name: \<open>[type="..."]\<close> (34 is the double quote)
  or nothing.
\<close>

definition typeDecoration :: "dom \<Rightarrow> ref \<Rightarrow> bool \<Rightarrow> jsstring \<Rightarrow> jsstring" where
  "typeDecoration s self isTarget nodeName =
     (if isTarget \<and> toLowerCase nodeName = js ''input''
         \<and> truthy (getAttribute s self (js ''type''))
         \<and> \<not> truthy (getAttribute s self (js ''id''))
         \<and> \<not> truthy (getAttribute s self (js ''class''))
      then js ''[type='' @ [34] @ the (getAttribute s self (js ''type'')) @ [34] @ js '']''
      else [])"

text \<open>
  \<open>for (const prefixedName in prefixedOwnClassNames.values())\<close> is a \<open>for ... in\<close> loop
  over an array iterator object: it runs through the enumerable string-keyed properties
  of that object. An array iterator has no own property, and the properties it inherits
  (\<open>next\<close> and the well-known symbols) are not enumerable, so the loop receives no key,
  whatever the array holds.
\<close>

definition forInKeysOfValues :: "jsstring list \<Rightarrow> jsstring list" where
  "forInKeysOfValues names = []"

text \<open>The \<open>switch\<close> on the writing mode in \<open>computeStep\<close>, appending to \<open>result\<close>.\<close>

definition appendMode :: "jsstring \<Rightarrow> WritingModeResult \<Rightarrow> jsstring" where
  "appendMode result wm =
     (case mode wm of
        NTH_CHILD \<Rightarrow> result @ js '':nth-child('' @ numberToString (index wm + 1) @ js '')''
      | TAGNAME_AND_CLASSNAME \<Rightarrow>
          foldl (\<lambda>res prefixedName. res @ 46 # escapeIdentifierIfNeeded (drop 1 prefixedName))
            result (forInKeysOfValues (ownClassNames wm)))"

definition computeStep :: "dom \<Rightarrow> ref \<Rightarrow> bool \<Rightarrow> error + DOMNodePathStep" where
  "computeStep s self isTarget =
     (if nodeType (s self) \<noteq> ELEMENT_NODE then Inl ElementIsNotOne
      else case getOptimizedValue s self of
             Inl e \<Rightarrow> Inl e
           | Inr (Some optimizedValue) \<Rightarrow> Inr optimizedValue
           | Inr None \<Rightarrow>
               (let nodeName = toLowerCase (tagName (s self))
                in case getWritingMode s self of
                     Inl e \<Rightarrow> Inl e
                   | Inr wm \<Rightarrow>
                       Inr \<lparr>stepValue =
                              Some (appendMode (nodeName @ typeDecoration s self isTarget nodeName) wm),
                            optimized = False\<rparr>))"

text \<open>The constructor of \<open>CSSPathStep\<close>, with \<open>init\<close>: the StepBuilder.\<close>

definition newCSSPathStep :: "dom \<Rightarrow> ref \<Rightarrow> bool \<Rightarrow> error + CSSPathStep" where
  "newCSSPathStep s n isTarget =
     (case computeStep s n isTarget of
        Inl e \<Rightarrow> Inl e
      | Inr r \<Rightarrow> Inr \<lparr>stepValue = stepValue r, optimized = optimized r,
                      node = n, isTargetNode = isTarget\<rparr>)"

section \<open>The ascent: \<open>CSSSelectorFinder\<close>\<close>

text \<open>
  The finder object. Its field \<open>node\<close> is \<open>finderNode\<close> here, \<open>node\<close> being the field
  of the steps.
\<close>

type_synonym SpecificityArray = "nat \<times> nat \<times> nat \<times> nat"

record CSSSelectorFinder =
  finderNode :: ref
  minSpecificity :: SpecificityArray
  path :: "CSSPathStep list"

text \<open>
  The \<open>while (contextNode)\<close> loop of \<open>cssPath\<close>. Parent links of a store may form a
  cycle, so the loop takes fuel, one unit for each iteration: \<open>None\<close> says that the fuel
  ran out before the loop was left. \<open>steps\<close> is in the order of \<open>push\<close>, target first.
\<close>

fun ascend :: "nat \<Rightarrow> dom \<Rightarrow> ref \<Rightarrow> ref option \<Rightarrow> CSSPathStep list
    \<Rightarrow> (error + CSSPathStep list) option" where
  "ascend fuel s target None steps = Some (Inr steps)"
| "ascend 0 s target (Some contextNode) steps = None"
| "ascend (Suc fuel) s target (Some contextNode) steps =
     (case newCSSPathStep s contextNode (contextNode = target) of
        Inl e \<Rightarrow> Some (Inl e)
      | Inr step \<Rightarrow>
          if isNull step then Some (Inr steps)
          else if optimized step then Some (Inr (steps @ [step]))
          else ascend fuel s target (parentElement s contextNode) (steps @ [step]))"

definition cssPath :: "nat \<Rightarrow> dom \<Rightarrow> CSSSelectorFinder \<Rightarrow> (error + CSSPathStep list) option" where
  "cssPath fuel s self =
     (if nodeType (s (finderNode self)) \<noteq> ELEMENT_NODE then Some (Inr [])
      else map_option (map_sum id rev)
             (ascend fuel s (finderNode self) (Some (finderNode self)) []))"

text \<open>
  The constructor. \<open>minSpecificity\<close> is optional and defaults to \<open>[0, 0, 0, 0]\<close>; \<open>path\<close>
  is not yet assigned when \<open>cssPath\<close> runs.
\<close>

definition newCSSSelectorFinder ::
    "nat \<Rightarrow> dom \<Rightarrow> ref \<Rightarrow> SpecificityArray option \<Rightarrow> (error + CSSSelectorFinder) option" where
  "newCSSSelectorFinder fuel s n minSpec =
     (let self = \<lparr>finderNode = n,
                  minSpecificity = (case minSpec of None \<Rightarrow> (0, 0, 0, 0) | Some m \<Rightarrow> m),
                  path = []\<rparr>
      in map_option (map_sum id (\<lambda>p. self\<lparr>path := p\<rparr>)) (cssPath fuel s self))"

text \<open>\<open>Array.prototype.join\<close>: a null element is rendered as the empty string.\<close>

fun join :: "jsstring \<Rightarrow> jsstring option list \<Rightarrow> jsstring" where
  "join sep [] = []"
| "join sep [x] = (case x of None \<Rightarrow> [] | Some v \<Rightarrow> v)"
| "join sep (x # y # ys) = (case x of None \<Rightarrow> [] | Some v \<Rightarrow> v) @ sep @ join sep (y # ys)"

definition toString :: "CSSSelectorFinder \<Rightarrow> jsstring" where
  "toString self = join (js '' > '') (map stepValue (path self))"

section \<open>Notions of the specification\<close>

text \<open>
  The zero-based position of an element among the element children of its parent.
\<close>

definition elementPosition :: "dom \<Rightarrow> ref \<Rightarrow> ref \<Rightarrow> nat" where
  "elementPosition s parent n = length (takeWhile (\<lambda>c. c \<noteq> n) (children s parent))"

text \<open>
  \<open>elementDepth s n d\<close>: the chain of parent-element links that starts at \<open>n\<close> ends after
  \<open>d\<close> elements, \<open>n\<close> included. In a tree below a document node this is the depth of
  \<open>n\<close>, the document being at depth 0; the topmost element of a detached tree has depth 1.
\<close>

inductive elementDepth :: "dom \<Rightarrow> ref \<Rightarrow> nat \<Rightarrow> bool" where
  top: "parentElement s n = None \<Longrightarrow> elementDepth s n (Suc 0)"
| below: "parentElement s n = Some p \<Longrightarrow> elementDepth s p d \<Longrightarrow> elementDepth s n (Suc d)"

text \<open>
  Escaping as the specification words it, over the condition under which the first
  character is escaped by force: a bare identifier is returned as it is; otherwise the
  character at each position is replaced by a backslash, its two hexadecimal digits and a
  space (none at the last position) when it is the first one and forced, or when it is
  outside \<open>[A-Za-z0-9_-]\<close> and below 0xA0, and is kept otherwise.
\<close>

definition twoHexDigits :: "code_unit \<Rightarrow> jsstring" where
  "twoHexDigits c = [hexDigit (c div 16), hexDigit (c mod 16)]"

definition escapeByWords :: "(jsstring \<Rightarrow> bool) \<Rightarrow> jsstring \<Rightarrow> jsstring" where
  "escapeByWords forceFirst ident =
     (if isCSSIdentifier ident then ident
      else concat (map (\<lambda>i. if (i = 0 \<and> forceFirst ident)
                                 \<or> (\<not> isIdentPart (ident ! i) \<and> ident ! i < 160)
                              then 92 # twoHexDigits (ident ! i)
                                     @ (if i = length ident - 1 then [] else [32])
                              else [ident ! i])
                     [0..<length ident]))"

text \<open>The string begins with a digit, or with a hyphen followed by a digit or a hyphen.\<close>

definition beginsDigitOrHyphenThenDigitOrHyphen :: "jsstring \<Rightarrow> bool" where
  "beginsDigitOrHyphenThenDigitOrHyphen ident =
     (case ident of
        [] \<Rightarrow> False
      | c # cs \<Rightarrow> isDigit c \<or> (c = 45 \<and> (case cs of [] \<Rightarrow> False | d # ds \<Rightarrow> isDigit d \<or> d = 45)))"

text \<open>The string begins with a digit or with a hyphen.\<close>

definition beginsDigitOrHyphen :: "jsstring \<Rightarrow> bool" where
  "beginsDigitOrHyphen ident = (case ident of [] \<Rightarrow> False | c # cs \<Rightarrow> isDigit c \<or> c = 45)"

text \<open>The string holds a line feed (U+000A) or a carriage return (U+000D).\<close>

definition hasLineFeedOrReturn :: "jsstring \<Rightarrow> bool" where
  "hasLineFeedOrReturn ident = list_ex (\<lambda>c. c = 10 \<or> c = 13) ident"

text \<open>
  The conditions under which a step carries the \<open>type\<close> decoration: it is the step of
  the target, the lowercased tag is \<open>input\<close>, the \<open>type\<close> attribute is there and not
  empty, \<open>id\<close> and \<open>class\<close> are each absent or empty, and the element has a parent that
  is not the document.
\<close>

definition absentOrEmpty :: "jsstring option \<Rightarrow> bool" where
  "absentOrEmpty a = (a = None \<or> a = Some [])"

definition decorationConditions :: "dom \<Rightarrow> ref \<Rightarrow> bool \<Rightarrow> bool" where
  "decorationConditions s n isTarget =
     (isTarget
      \<and> toLowerCase (tagName (s n)) = js ''input''
      \<and> (case getAttribute s n (js ''type'') of None \<Rightarrow> False | Some v \<Rightarrow> v \<noteq> [])
      \<and> absentOrEmpty (getAttribute s n (js ''id''))
      \<and> absentOrEmpty (getAttribute s n (js ''class''))
      \<and> (case parentNode (s n) of None \<Rightarrow> False | Some p \<Rightarrow> nodeType (s p) \<noteq> DOCUMENT_NODE))"

section \<open>Example documents\<close>

definition element :: "string \<Rightarrow> (string \<times> string) list \<Rightarrow> ref option \<Rightarrow> ref list \<Rightarrow> node" where
  "element tag attrs parent kids =
     \<lparr>nodeType = ELEMENT_NODE, tagName = js tag,
      attributes = map (\<lambda>(k, v). (js k, js v)) attrs,
      parentNode = parent, childNodes = kids\<rparr>"

definition otherNode :: "NodeType \<Rightarrow> ref option \<Rightarrow> ref list \<Rightarrow> node" where
  "otherNode ty parent kids =
     \<lparr>nodeType = ty, tagName = [], attributes = [], parentNode = parent, childNodes = kids\<rparr>"

text \<open>
  \<open><html><body><div><p>A</p> <p class="hit">B</p><p>C</p></div></body></html>\<close>, with a
  text node (reference 7) between the first two paragraphs. References: 0 the document,
  1 \<open>html\<close>, 2 \<open>body\<close>, 3 \<open>div\<close>, 4 to 6 the paragraphs.
\<close>

definition paragraphs :: dom where
  "paragraphs r =
     (if r = 0 then otherNode DOCUMENT_NODE None [1]
      else if r = 1 then element ''HTML'' [] (Some 0) [2]
      else if r = 2 then element ''BODY'' [] (Some 1) [3]
      else if r = 3 then element ''DIV'' [] (Some 2) [4, 7, 5, 6]
      else if r = 4 then element ''P'' [] (Some 3) []
      else if r = 5 then element ''P'' [(''class'', ''hit'')] (Some 3) []
      else if r = 6 then element ''P'' [] (Some 3) []
      else otherNode TEXT_NODE (Some 3) [])"

text \<open>
  An SVG document: the document (reference 0) and its root element \<open><svg>\<close>
  (reference 1) with the given attributes.
\<close>

definition svgDocument :: "(string \<times> string) list \<Rightarrow> dom" where
  "svgDocument attrs r =
     (if r = 0 then otherNode DOCUMENT_NODE None [1]
      else element ''svg'' attrs (Some 0) [])"

text \<open>
  \<open><html><body><form><input type="text"/><input type="password"/><input type=""/>
  <input type="text" class=""/></form></body></html>\<close> (references 4 to 7 for the inputs),
  and a detached \<open><input type="text"/>\<close> without parent (reference 8).
\<close>

definition inputs :: dom where
  "inputs r =
     (if r = 0 then otherNode DOCUMENT_NODE None [1]
      else if r = 1 then element ''HTML'' [] (Some 0) [2]
      else if r = 2 then element ''BODY'' [] (Some 1) [3]
      else if r = 3 then element ''FORM'' [] (Some 2) [4, 5, 6, 7]
      else if r = 4 then element ''INPUT'' [(''type'', ''text'')] (Some 3) []
      else if r = 5 then element ''INPUT'' [(''type'', ''password'')] (Some 3) []
      else if r = 6 then element ''INPUT'' [(''type'', [])] (Some 3) []
      else if r = 7 then element ''INPUT'' [(''type'', ''text''), (''class'', [])] (Some 3) []
      else element ''INPUT'' [(''type'', ''text'')] None [])"

section \<open>Lemmas for evaluation\<close>

lemmas step_defs = computeStep_def getOptimizedValue_def getAttribute_def truthy_def
  toLowerCase_def isUpper_def getWritingMode_def children_def prefixedElementClassNames_def
  isWhiteSpace_def appendMode_def forInKeysOfValues_def typeDecoration_def idSelector_def
  newCSSPathStep_def parentElement_def isNull_def numberToString_def
lemmas doc_defs = element_def otherNode_def js_def

lemma ascend_numeral:
  "ascend (numeral k) s target (Some contextNode) steps =
     (case newCSSPathStep s contextNode (contextNode = target) of
        Inl e \<Rightarrow> Some (Inl e)
      | Inr step \<Rightarrow>
          if isNull step then Some (Inr steps)
          else if optimized step then Some (Inr (steps @ [step]))
          else ascend (pred_numeral k) s target (parentElement s contextNode) (steps @ [step]))"
  by (simp only: numeral_eq_Suc ascend.simps)


section \<open>Lemmas on the ascent\<close>

lemma ascend_no_optimized_inside:
  assumes "ascend fuel s target c steps = Some (Inr p)"
      and "\<forall>st \<in> set steps. \<not> optimized st"
  shows "\<forall>st \<in> set (butlast p). \<not> optimized st"
  using assms
proof (induction fuel s target c steps rule: ascend.induct)
  case (1 fuel s target steps)
  then have "p = steps" by simp
  with 1 show ?case by (blast dest: in_set_butlastD)
next
  case (2 s target contextNode steps)
  then show ?case by simp
next
  case (3 fuel s target contextNode steps)
  show ?case
  proof (cases "newCSSPathStep s contextNode (contextNode = target)")
    case (Inl e)
    with "3.prems" show ?thesis by simp
  next
    case (Inr step)
    show ?thesis
    proof (cases "isNull step")
      case True
      with Inr "3.prems" have "p = steps" by simp
      with "3.prems" show ?thesis by (blast dest: in_set_butlastD)
    next
      case notNull: False
      show ?thesis
      proof (cases "optimized step")
        case True
        with Inr notNull "3.prems" have "p = steps @ [step]" by simp
        with "3.prems" show ?thesis by simp
      next
        case False
        with Inr notNull "3.prems"
        have run: "ascend fuel s target (parentElement s contextNode) (steps @ [step]) = Some (Inr p)"
          by simp
        from False "3.prems" have inv: "\<forall>st \<in> set (steps @ [step]). \<not> optimized st"
          by simp
        from "3.IH" [OF Inr notNull False run inv] show ?thesis .
      qed
    qed
  qed
qed

lemma cssPath_Inr:
  assumes "cssPath fuel s self = Some (Inr p)"
  shows "(nodeType (s (finderNode self)) \<noteq> ELEMENT_NODE \<and> p = [])
       \<or> (\<exists>q. ascend fuel s (finderNode self) (Some (finderNode self)) [] = Some (Inr q) \<and> p = rev q)"
proof (cases "nodeType (s (finderNode self)) \<noteq> ELEMENT_NODE")
  case True
  with assms show ?thesis by (simp add: cssPath_def)
next
  case False
  with assms have m: "map_option (map_sum id rev)
      (ascend fuel s (finderNode self) (Some (finderNode self)) []) = Some (Inr p)"
    by (simp add: cssPath_def)
  then obtain r where r: "ascend fuel s (finderNode self) (Some (finderNode self)) [] = Some r"
    and r': "map_sum id rev r = Inr p"
    by (cases "ascend fuel s (finderNode self) (Some (finderNode self)) []") simp_all
  from r' obtain q where "r = Inr q" "p = rev q"
    by (cases r) auto
  with r show ?thesis by blast
qed


section \<open>Lemmas on the optimized shortcut\<close>

lemma getOptimizedValue_None:
  assumes "getOptimizedValue s n = Inr None"
  shows "\<not> truthy (getAttribute s n (js ''id''))
       \<and> toLowerCase (tagName (s n)) \<notin> {js ''html'', js ''head'', js ''body''}
       \<and> (\<exists>p. parentNode (s n) = Some p \<and> nodeType (s p) \<noteq> DOCUMENT_NODE)"
  using assms
  by (auto simp: getOptimizedValue_def Let_def split: if_splits option.splits)

section \<open>Lemmas on the fuel of the ascent\<close>

lemma ascend_enough_fuel:
  assumes "elementDepth s c d" and "d \<le> fuel"
  shows "\<exists>r. ascend d s target (Some c) steps = Some r
           \<and> ascend fuel s target (Some c) steps = Some r"
  using assms
proof (induction arbitrary: fuel steps rule: elementDepth.induct)
  case (top s n)
  then obtain f where f: "fuel = Suc f" by (cases fuel) auto
  show ?case
    by (cases "newCSSPathStep s n (n = target)") (simp_all add: f top.hyps)
next
  case (below s n p d)
  then obtain f where f: "fuel = Suc f" and df: "d \<le> f" by (cases fuel) auto
  show ?case
  proof (cases "newCSSPathStep s n (n = target)")
    case (Inl e)
    then show ?thesis by (simp add: f)
  next
    case (Inr step)
    from below.IH [OF df, of "steps @ [step]"] Inr show ?thesis
      by (simp add: f below.hyps)
  qed
qed

section \<open>Lemmas on escaping\<close>

lemma toString16_small: "n < 16 \<Longrightarrow> toString16 n = [hexDigit n]"
  by (subst toString16.simps) simp

lemma toHexByte_twoHexDigits:
  assumes "c < 256"
  shows "toHexByte c = twoHexDigits c"
proof (cases "c < 16")
  case True
  then show ?thesis
    by (simp add: toHexByte_def twoHexDigits_def toString16_small hexDigit_def)
next
  case False
  with assms have "c div 16 < 16" by simp
  then have "toString16 (c div 16) = [hexDigit (c div 16)]" by (rule toString16_small)
  with False have "toString16 c = [hexDigit (c div 16), hexDigit (c mod 16)]"
    by (subst toString16.simps) simp
  then show ?thesis by (simp add: toHexByte_def twoHexDigits_def)
qed

lemma upt_shift: "[0..<Suc n] = 0 # map Suc [0..<n]"
  by (simp add: upt_conv_Cons map_Suc_upt del: upt_Suc)

lemma replaceEach_concat:
  assumes "\<forall>j < length cs. isLineTerminator (cs ! j) \<longrightarrow> f (cs ! j) (i + int j) = [cs ! j]"
  shows "replaceEach f i cs = concat (map (\<lambda>j. f (cs ! j) (i + int j)) [0..<length cs])"
  using assms
proof (induction cs arbitrary: i)
  case Nil
  then show ?case by simp
next
  case (Cons c cs)
  from Cons.prems have "isLineTerminator ((c # cs) ! 0) \<longrightarrow> f ((c # cs) ! 0) (i + int 0) = [(c # cs) ! 0]"
    by (metis length_greater_0_conv list.distinct(1))
  then have c: "(if isLineTerminator c then [c] else f c i) = f c i" by simp
  have cs: "\<forall>j < length cs. isLineTerminator (cs ! j) \<longrightarrow> f (cs ! j) (i + 1 + int j) = [cs ! j]"
  proof (intro allI impI)
    fix j assume j: "j < length cs" and lt: "isLineTerminator (cs ! j)"
    from j have "Suc j < length (c # cs)" by simp
    with Cons.prems have "isLineTerminator ((c # cs) ! Suc j)
        \<longrightarrow> f ((c # cs) ! Suc j) (i + int (Suc j)) = [(c # cs) ! Suc j]" by blast
    with lt show "f (cs ! j) (i + 1 + int j) = [cs ! j]" by (simp add: add.assoc)
  qed
  have "replaceEach f i (c # cs) = f c i @ replaceEach f (i + 1) cs"
    using c by simp
  also have "replaceEach f (i + 1) cs
      = concat (map (\<lambda>j. f (cs ! j) (i + 1 + int j)) [0..<length cs])"
    by (rule Cons.IH [OF cs])
  also have "f c i @ concat (map (\<lambda>j. f (cs ! j) (i + 1 + int j)) [0..<length cs])
      = concat (map (\<lambda>j. f ((c # cs) ! j) (i + int j)) [0..<length (c # cs)])"
    by (simp only: length_Cons upt_shift) (simp add: comp_def add.assoc)
  finally show ?case .
qed

lemma forced_first_small:
  assumes "shouldEscapeFirst ident" and "ident \<noteq> []"
  shows "ident ! 0 < 160"
  using assms by (cases ident) (auto simp: isDigit_def)

section \<open>Lemmas on the fragment\<close>

lemma toLowerCase_idem: "toLowerCase (toLowerCase str) = toLowerCase str"
  by (simp add: toLowerCase_def isUpper_def)

lemma truthy_iff: "truthy a = (case a of None \<Rightarrow> False | Some v \<Rightarrow> v \<noteq> [])"
  by (simp add: truthy_def)

lemma not_truthy_iff: "(\<not> truthy a) = absentOrEmpty a"
  by (cases a) (auto simp: truthy_def absentOrEmpty_def)

lemma typeDecoration_cases:
  "typeDecoration s n isTarget (toLowerCase (tagName (s n))) =
     (if isTarget \<and> toLowerCase (tagName (s n)) = js ''input''
         \<and> truthy (getAttribute s n (js ''type''))
         \<and> absentOrEmpty (getAttribute s n (js ''id''))
         \<and> absentOrEmpty (getAttribute s n (js ''class''))
      then js ''[type='' @ [34] @ the (getAttribute s n (js ''type'')) @ [34] @ js '']''
      else [])"
  by (simp add: typeDecoration_def toLowerCase_idem not_truthy_iff)

lemma computeStep_structural:
  assumes "nodeType (s n) = ELEMENT_NODE" and "getOptimizedValue s n = Inr None"
      and "getWritingMode s n = Inr wm"
  shows "computeStep s n isTarget =
           Inr \<lparr>stepValue = Some (appendMode (toLowerCase (tagName (s n))
                    @ typeDecoration s n isTarget (toLowerCase (tagName (s n)))) wm),
                optimized = False\<rparr>"
  using assms by (simp add: computeStep_def Let_def)

lemma appendMode_without_class_suffix:
  assumes "mode wm = TAGNAME_AND_CLASSNAME"
  shows "appendMode result wm = result"
  using assms by (simp add: appendMode_def forInKeysOfValues_def)

lemma getOptimizedValue_Some:
  assumes "getOptimizedValue s n = Inr (Some ov)"
  shows "optimized ov
       \<and> (stepValue ov = Some (idSelector (the (getAttribute s n (js ''id''))))
          \<or> stepValue ov = Some (toLowerCase (tagName (s n))))
       \<and> (truthy (getAttribute s n (js ''id''))
          \<or> toLowerCase (tagName (s n)) \<in> {js ''html'', js ''head'', js ''body''}
          \<or> parentNode (s n) = None)"
  using assms
  by (auto simp: getOptimizedValue_def Let_def split: if_splits option.splits)

section \<open>Lemmas on the sibling loop\<close>

lemma eliminateClasses_indices:
  "ownIndex (eliminateClasses cs st k) = ownIndex st
   \<and> elementIndex (eliminateClasses cs st k) = elementIndex st"
  by (induction cs st k rule: eliminateClasses.induct) simp_all

lemma scanSiblings_keeps_ownIndex:
  assumes "self \<notin> set sibs"
  shows "ownIndex (scanSiblings s self nodeName sibs st) = ownIndex st"
  using assms
proof (induction sibs arbitrary: st)
  case Nil
  then show ?case by simp
next
  case (Cons c cs)
  then have ne: "c \<noteq> self" and rest: "self \<notin> set cs" by auto
  show ?case
    using ne by (simp add: Cons.IH [OF rest] eliminateClasses_indices)
qed

lemma scanSiblings_finds_ownIndex:
  assumes "self \<in> set sibs" and "distinct sibs"
      and "\<forall>c \<in> set sibs. nodeType (s c) = ELEMENT_NODE"
      and "ownIndex st = - 1"
  shows "ownIndex (scanSiblings s self nodeName sibs st)
           = elementIndex st + 1 + int (length (takeWhile (\<lambda>c. c \<noteq> self) sibs))"
  using assms
proof (induction sibs arbitrary: st)
  case Nil
  then show ?case by simp
next
  case (Cons c cs)
  from Cons.prems have el: "nodeType (s c) = ELEMENT_NODE"
    and els: "\<forall>c \<in> set cs. nodeType (s c) = ELEMENT_NODE"
    and dist: "distinct cs" and notin: "c \<notin> set cs" by auto
  show ?case
  proof (cases "c = self")
    case True
    with notin have "self \<notin> set cs" by simp
    from scanSiblings_keeps_ownIndex [OF this] True el Cons.prems(4)
    show ?thesis by simp
  next
    case False
    with Cons.prems have mem: "self \<in> set cs" by auto
    note ih = Cons.IH [OF mem dist els]
    from False el Cons.prems(4) show ?thesis
      by (simp add: ih eliminateClasses_indices)
  qed
qed

lemma numberToString_position: "numberToString (int k + 1) = toString10 (k + 1)"
  by (simp add: numberToString_def nat_add_distrib)

section \<open>The claims\<close>

text \<open>
  C1. The claim: in TAGNAME_AND_CLASSNAME mode the fragment is the lowercased tag followed,
  for each class that survived the elimination, by a dot and the escaped class name.
  The code evaluated on the second paragraph of \<open>paragraphs\<close>, whose class \<open>hit\<close> survives:
  the mode is TAGNAME_AND_CLASSNAME with the surviving class \<open>$hit\<close>, and the fragment is
  \<open>p\<close>, the selector \<open>body > div > p\<close>; the class suffix is not written, since the
  \<open>for ... in\<close> loop over \<open>values()\<close> has no key to run through. The examples in the
  comment of \<open>WritingMode.TAGNAME_AND_CLASSNAME\<close> (\<open>p.about\<close>, \<open>input.name-field\<close>)
  show the suffix that the loop body is written to append.
\<close>

theorem C1_class_suffix_not_emitted:
  "getWritingMode paragraphs 5
     = Inr \<lparr>mode = TAGNAME_AND_CLASSNAME, index = 1, ownClassNames = [js ''$hit'']\<rparr>
   \<and> computeStep paragraphs 5 True = Inr \<lparr>stepValue = Some (js ''p''), optimized = False\<rparr>
   \<and> map_option (map_sum id toString) (newCSSSelectorFinder 4 paragraphs 5 None)
     = Some (Inr (js ''body > div > p''))"
proof (intro conjI)
  show "getWritingMode paragraphs 5
     = Inr \<lparr>mode = TAGNAME_AND_CLASSNAME, index = 1, ownClassNames = [js ''$hit'']\<rparr>"
    by (simp add: step_defs doc_defs paragraphs_def)
  show "computeStep paragraphs 5 True = Inr \<lparr>stepValue = Some (js ''p''), optimized = False\<rparr>"
    by (simp add: step_defs doc_defs paragraphs_def)
  show "map_option (map_sum id toString) (newCSSSelectorFinder 4 paragraphs 5 None)
     = Some (Inr (js ''body > div > p''))"
    by (simp add: newCSSSelectorFinder_def cssPath_def toString_def ascend_numeral
                  step_defs doc_defs paragraphs_def)
qed

text \<open>
  C2 as stated fails: the root element of an SVG document with an \<open>id\<close> is a child of the
  document, its tag is not \<open>html\<close>, and the step builder returns the optimized step
  \<open>#root\<close> for it; the \<open>id\<close> test and the \<open>html\<close>, \<open>head\<close>, \<open>body\<close> test come before
  the test of the parent.
\<close>

theorem C2_counterexample:
  "nodeType (svgDocument [(''id'', ''root'')] 1) = ELEMENT_NODE
   \<and> parentNode (svgDocument [(''id'', ''root'')] 1) = Some 0
   \<and> nodeType (svgDocument [(''id'', ''root'')] 0) = DOCUMENT_NODE
   \<and> toLowerCase (tagName (svgDocument [(''id'', ''root'')] 1)) \<noteq> js ''html''
   \<and> newCSSPathStep (svgDocument [(''id'', ''root'')]) 1 True
       = Inr \<lparr>stepValue = Some (js ''#root''), optimized = True, node = 1, isTargetNode = True\<rparr>"
  by (simp add: svgDocument_def step_defs doc_defs escapeIdentifierIfNeeded_def
                isIdentStart_def isIdentPart_def isLower_def isDigit_def)

text \<open>
  C2, amended. For every element without a non-empty \<open>id\<close> whose lowercased tag is none of
  \<open>html\<close>, \<open>head\<close>, \<open>body\<close> and whose parent is the document node, the step builder fails
  with the error "The child of a Document must be html" and produces no step.
\<close>

theorem C2_child_of_document_fails:
  assumes "nodeType (s n) = ELEMENT_NODE"
      and "parentNode (s n) = Some p"
      and "nodeType (s p) = DOCUMENT_NODE"
      and "\<not> truthy (getAttribute s n (js ''id''))"
      and "toLowerCase (tagName (s n)) \<notin> {js ''html'', js ''head'', js ''body''}"
  shows "newCSSPathStep s n isTarget = Inl ChildOfDocumentMustBeHtml"
  using assms
  by (simp add: newCSSPathStep_def computeStep_def getOptimizedValue_def Let_def)

theorem C2_child_of_document_fails_witness:
  "nodeType (svgDocument [] 1) = ELEMENT_NODE
   \<and> parentNode (svgDocument [] 1) = Some 0
   \<and> nodeType (svgDocument [] 0) = DOCUMENT_NODE
   \<and> \<not> truthy (getAttribute (svgDocument []) 1 (js ''id''))
   \<and> toLowerCase (tagName (svgDocument [] 1)) \<notin> {js ''html'', js ''head'', js ''body''}
   \<and> newCSSPathStep (svgDocument []) 1 True = Inl ChildOfDocumentMustBeHtml"
proof -
  have h1: "nodeType (svgDocument [] 1) = ELEMENT_NODE"
    by (simp add: svgDocument_def doc_defs)
  have h2: "parentNode (svgDocument [] 1) = Some 0"
    by (simp add: svgDocument_def doc_defs)
  have h3: "nodeType (svgDocument [] 0) = DOCUMENT_NODE"
    by (simp add: svgDocument_def doc_defs)
  have h4: "\<not> truthy (getAttribute (svgDocument []) 1 (js ''id''))"
    by (simp add: svgDocument_def doc_defs getAttribute_def truthy_def)
  have h5: "toLowerCase (tagName (svgDocument [] 1)) \<notin> {js ''html'', js ''head'', js ''body''}"
    by (simp add: svgDocument_def doc_defs toLowerCase_def isUpper_def)
  from C2_child_of_document_fails [OF h1 h2 h3 h4 h5] h1 h2 h3 h4 h5 show ?thesis by blast
qed

text \<open>
  C3. For an element among the children of its parent, when \<open>getWritingMode\<close> selects
  NTH_CHILD the index it returns is the zero-based position of the element among the
  element children of its parent, and the fragment ends with \<open>:nth-child(k)\<close> where \<open>k\<close>
  is that position plus 1; this holds wherever the sibling loop stops.
\<close>

theorem C3_nth_child_index:
  assumes "nodeType (s n) = ELEMENT_NODE"
      and "parentNode (s n) = Some p"
      and "n \<in> set (childNodes (s p))"
      and "distinct (childNodes (s p))"
      and "getOptimizedValue s n = Inr None"
      and "getWritingMode s n = Inr wm"
      and "mode wm = NTH_CHILD"
  shows "index wm = int (elementPosition s p n)
       \<and> computeStep s n isTarget =
           Inr \<lparr>stepValue = Some (toLowerCase (tagName (s n))
                    @ typeDecoration s n isTarget (toLowerCase (tagName (s n)))
                    @ js '':nth-child('' @ toString10 (elementPosition s p n + 1) @ js '')''),
                optimized = False\<rparr>"
proof -
  have mem: "n \<in> set (children s p)" using assms(1,3) by (simp add: children_def)
  have dist: "distinct (children s p)" using assms(4) by (simp add: children_def)
  have els: "\<forall>c \<in> set (children s p). nodeType (s c) = ELEMENT_NODE"
    by (simp add: children_def)
  let ?init = "\<lparr>needsNthChild = False, ownIndex = - 1, elementIndex = - 1,
                 prefixedOwnClassNames = prefixedElementClassNames s n\<rparr>"
  have "ownIndex (scanSiblings s n (toLowerCase (tagName (s n))) (children s p) ?init)
          = elementIndex ?init + 1 + int (length (takeWhile (\<lambda>c. c \<noteq> n) (children s p)))"
    by (rule scanSiblings_finds_ownIndex [OF mem dist els]) simp
  with assms(2,6) have idx: "index wm = int (elementPosition s p n)"
    by (auto simp: getWritingMode_def Let_def elementPosition_def)
  have "computeStep s n isTarget =
           Inr \<lparr>stepValue = Some (appendMode (toLowerCase (tagName (s n))
                    @ typeDecoration s n isTarget (toLowerCase (tagName (s n)))) wm),
                optimized = False\<rparr>"
    using assms(1,5,6) by (simp add: computeStep_def Let_def)
  moreover have "appendMode r wm = r @ js '':nth-child('' @ toString10 (elementPosition s p n + 1) @ js '')''" for r
    using assms(7) idx by (simp add: appendMode_def numberToString_position)
  ultimately show ?thesis using idx by simp
qed

theorem C3_nth_child_index_witness:
  "nodeType (paragraphs 6) = ELEMENT_NODE
   \<and> parentNode (paragraphs 6) = Some 3
   \<and> 6 \<in> set (childNodes (paragraphs 3))
   \<and> distinct (childNodes (paragraphs 3))
   \<and> getOptimizedValue paragraphs 6 = Inr None
   \<and> getWritingMode paragraphs 6 = Inr \<lparr>mode = NTH_CHILD, index = 2, ownClassNames = []\<rparr>
   \<and> elementPosition paragraphs 3 6 = 2
   \<and> computeStep paragraphs 6 True
       = Inr \<lparr>stepValue = Some (js ''p:nth-child(3)''), optimized = False\<rparr>"
proof -
  have h1: "nodeType (paragraphs 6) = ELEMENT_NODE" by (simp add: paragraphs_def doc_defs)
  have h2: "parentNode (paragraphs 6) = Some 3" by (simp add: paragraphs_def doc_defs)
  have h3: "6 \<in> set (childNodes (paragraphs 3))" by (simp add: paragraphs_def doc_defs)
  have h4: "distinct (childNodes (paragraphs 3))" by (simp add: paragraphs_def doc_defs)
  have h5: "getOptimizedValue paragraphs 6 = Inr None"
    by (simp add: step_defs doc_defs paragraphs_def)
  have h6: "getWritingMode paragraphs 6 = Inr \<lparr>mode = NTH_CHILD, index = 2, ownClassNames = []\<rparr>"
    by (simp add: step_defs doc_defs paragraphs_def)
  have h7: "mode \<lparr>mode = NTH_CHILD, index = 2, ownClassNames = []\<rparr> = NTH_CHILD" by simp
  have pos: "elementPosition paragraphs 3 6 = 2"
    by (simp add: elementPosition_def children_def paragraphs_def doc_defs)
  have dec: "typeDecoration paragraphs 6 True (toLowerCase (tagName (paragraphs 6))) = []"
    by (simp add: typeDecoration_def paragraphs_def doc_defs toLowerCase_def isUpper_def)
  have str: "toLowerCase (tagName (paragraphs 6)) @ [] @ js '':nth-child('' @ toString10 (2 + 1) @ js '')''
      = js ''p:nth-child(3)''"
    by (simp add: paragraphs_def doc_defs toLowerCase_def isUpper_def toString10.simps)
  from C3_nth_child_index [OF h1 h2 h3 h4 h5 h6 h7, of True] h1 h2 h3 h4 h5 h6 pos dec str
  show ?thesis by simp
qed

text \<open>
  C4 as stated fails. The claim escapes the first character by force only when the
  string begins with a digit, or with a hyphen followed by a digit or a hyphen; the code
  does so for every string that is not a bare identifier and begins with a hyphen:
  \<open>-a.b\<close> becomes \<open>\2d a\2e b\<close>, not \<open>-a\2e b\<close>. And a line feed, which is outside
  \<open>[A-Za-z0-9_-]\<close> and below 0xA0, is not replaced: \<open>.\<close> does not match it.
\<close>

theorem C4_counterexample:
  "escapeIdentifierIfNeeded (js ''-a.b'') = 92 # js ''2d a'' @ 92 # js ''2e b''
   \<and> escapeByWords beginsDigitOrHyphenThenDigitOrHyphen (js ''-a.b'') = js ''-a'' @ 92 # js ''2e b''
   \<and> escapeIdentifierIfNeeded [97, 10, 98] = [97, 10, 98]
   \<and> escapeByWords beginsDigitOrHyphenThenDigitOrHyphen [97, 10, 98] = 97 # 92 # js ''0a b''"
proof (intro conjI)
  show "escapeIdentifierIfNeeded (js ''-a.b'') = 92 # js ''2d a'' @ 92 # js ''2e b''"
    by (simp add: escapeIdentifierIfNeeded_def js_def isIdentStart_def isIdentPart_def
        isLower_def isUpper_def isDigit_def isLineTerminator_def isCSSIdentChar_def
        escapeAsciiChar_def toHexByte_def toString16.simps hexDigit_def)
  show "escapeByWords beginsDigitOrHyphenThenDigitOrHyphen (js ''-a.b'') = js ''-a'' @ 92 # js ''2e b''"
    by (simp add: escapeByWords_def beginsDigitOrHyphenThenDigitOrHyphen_def js_def
        isIdentStart_def isIdentPart_def isLower_def isUpper_def isDigit_def
        twoHexDigits_def hexDigit_def)
  show "escapeIdentifierIfNeeded [97, 10, 98] = [97, 10, 98]"
    by (simp add: escapeIdentifierIfNeeded_def isIdentStart_def isIdentPart_def
        isLower_def isUpper_def isDigit_def isLineTerminator_def isCSSIdentChar_def)
  show "escapeByWords beginsDigitOrHyphenThenDigitOrHyphen [97, 10, 98] = 97 # 92 # js ''0a b''"
    by (simp add: escapeByWords_def beginsDigitOrHyphenThenDigitOrHyphen_def js_def
        isIdentStart_def isIdentPart_def isLower_def isUpper_def isDigit_def
        twoHexDigits_def hexDigit_def)
qed

text \<open>
  C4, amended. For every string without line feed and carriage return (the other two
  line terminators, U+2028 and U+2029, are allowed): a string that matches
  \<open>^-?[A-Za-z_][A-Za-z0-9_-]*$\<close> is returned unchanged; otherwise each character outside
  \<open>[A-Za-z0-9_-]\<close> with code below 0xA0 is replaced by a backslash, its two lower-case
  hexadecimal digits and a space (no space at the last position), the first character is
  escaped the same way exactly when the string begins with a digit or with a hyphen,
  and every other character is kept, those from 0xA0 on among them.
\<close>

theorem C4_escaping:
  assumes "\<not> hasLineFeedOrReturn ident"
  shows "escapeIdentifierIfNeeded ident = escapeByWords beginsDigitOrHyphen ident"
proof (cases "isCSSIdentifier ident")
  case True
  then show ?thesis by (simp add: escapeIdentifierIfNeeded_def escapeByWords_def)
next
  case False
  let ?f = "\<lambda>c i. if (shouldEscapeFirst ident \<and> i = 0) \<or> \<not> isCSSIdentChar c
                  then escapeAsciiChar c (i = int (length ident) - 1) else [c]"
  let ?g = "\<lambda>i. if (i = 0 \<and> beginsDigitOrHyphen ident)
                     \<or> (\<not> isIdentPart (ident ! i) \<and> ident ! i < 160)
                 then 92 # twoHexDigits (ident ! i) @ (if i = length ident - 1 then [] else [32])
                 else [ident ! i]"
  have b: "beginsDigitOrHyphen ident = shouldEscapeFirst ident"
    by (cases ident) (simp_all add: beginsDigitOrHyphen_def)
  have pt: "?f (ident ! j) (0 + int j) = ?g j" if j: "j < length ident" for j
  proof (cases "(j = 0 \<and> shouldEscapeFirst ident) \<or> \<not> isCSSIdentChar (ident ! j)")
    case True
    have small: "ident ! j < 256"
    proof (cases "j = 0 \<and> shouldEscapeFirst ident")
      case True
      with j forced_first_small [of ident] show ?thesis by fastforce
    next
      case False
      with True have "\<not> isCSSIdentChar (ident ! j)" by blast
      then show ?thesis by (simp add: isCSSIdentChar_def split: if_splits)
    qed
    have forced: "ident ! j < 160" if "j = 0" "shouldEscapeFirst ident"
      using that j forced_first_small [of ident] by fastforce
    have last: "(int j = int (length ident) - 1) = (j = length ident - 1)"
      using j by auto
    from True have cond: "(j = 0 \<and> beginsDigitOrHyphen ident)
        \<or> (\<not> isIdentPart (ident ! j) \<and> ident ! j < 160)"
      unfolding b by (auto simp: isCSSIdentChar_def split: if_splits)
    from True have cf: "(shouldEscapeFirst ident \<and> 0 + int j = 0) \<or> \<not> isCSSIdentChar (ident ! j)"
      by auto
    have "?f (ident ! j) (0 + int j) = escapeAsciiChar (ident ! j) (0 + int j = int (length ident) - 1)"
      using cf by (simp only: if_True)
    also have "\<dots> = 92 # twoHexDigits (ident ! j) @ (if j = length ident - 1 then [] else [32])"
      using last by (simp add: escapeAsciiChar_def toHexByte_twoHexDigits [OF small])
    also have "\<dots> = ?g j"
      using cond by (simp only: if_True)
    finally show ?thesis .
  next
    case False
    then have keep: "isCSSIdentChar (ident ! j)" and nf: "\<not> (j = 0 \<and> shouldEscapeFirst ident)"
      by blast+
    from keep have "\<not> (\<not> isIdentPart (ident ! j) \<and> ident ! j < 160)"
      by (auto simp: isCSSIdentChar_def split: if_splits)
    with nf have cg: "\<not> ((j = 0 \<and> beginsDigitOrHyphen ident)
        \<or> (\<not> isIdentPart (ident ! j) \<and> ident ! j < 160))"
      unfolding b by blast
    from False have cf: "\<not> ((shouldEscapeFirst ident \<and> 0 + int j = 0) \<or> \<not> isCSSIdentChar (ident ! j))"
      by auto
    have "?f (ident ! j) (0 + int j) = [ident ! j]"
      using cf by (simp only: if_False)
    also have "\<dots> = ?g j"
      using cg by (simp only: if_False)
    finally show ?thesis .
  qed
  have kept: "?f (ident ! j) (0 + int j) = [ident ! j]"
    if j: "j < length ident" and lt: "isLineTerminator (ident ! j)" for j
  proof -
    from j have "ident ! j \<in> set ident" by simp
    with assms have "ident ! j \<noteq> 10" "ident ! j \<noteq> 13"
      by (auto simp: hasLineFeedOrReturn_def list_ex_iff)
    with lt have big: "160 \<le> ident ! j" by (auto simp: isLineTerminator_def)
    then have ic: "isCSSIdentChar (ident ! j)" by (simp add: isCSSIdentChar_def)
    have "\<not> (shouldEscapeFirst ident \<and> 0 + int j = 0)"
    proof
      assume a: "shouldEscapeFirst ident \<and> 0 + int j = 0"
      then have j0: "j = 0" by simp
      from a j have "ident ! 0 < 160" by (intro forced_first_small) auto
      with big j0 show False by simp
    qed
    with ic have "\<not> ((shouldEscapeFirst ident \<and> 0 + int j = 0) \<or> \<not> isCSSIdentChar (ident ! j))"
      by blast
    then show ?thesis by (simp only: if_False)
  qed
  have "replaceEach ?f 0 ident
      = concat (map (\<lambda>j. ?f (ident ! j) (0 + int j)) [0..<length ident])"
    by (rule replaceEach_concat) (use kept in blast)
  also have "map (\<lambda>j. ?f (ident ! j) (0 + int j)) [0..<length ident] = map ?g [0..<length ident]"
    by (rule map_cong [OF refl]) (use pt in auto)
  finally show ?thesis using False
    by (simp add: escapeIdentifierIfNeeded_def escapeByWords_def Let_def)
qed

theorem C4_escaping_witness:
  "\<not> hasLineFeedOrReturn [49, 8232, 46]
   \<and> escapeIdentifierIfNeeded [49, 8232, 46] = 92 # js ''31 '' @ 8232 # 92 # js ''2e''
   \<and> escapeByWords beginsDigitOrHyphen [49, 8232, 46] = 92 # js ''31 '' @ 8232 # 92 # js ''2e''"
proof -
  have h: "\<not> hasLineFeedOrReturn [49, 8232, 46]"
    by (simp add: hasLineFeedOrReturn_def)
  have v: "escapeByWords beginsDigitOrHyphen [49, 8232, 46] = 92 # js ''31 '' @ 8232 # 92 # js ''2e''"
    by (simp add: escapeByWords_def beginsDigitOrHyphen_def js_def
        isIdentStart_def isIdentPart_def isLower_def isUpper_def isDigit_def
        twoHexDigits_def hexDigit_def)
  from C4_escaping [OF h] h v show ?thesis by simp
qed

text \<open>
  C5. In every path that \<open>cssPath\<close> returns, a step marked optimized is the first step
  of the root-first list: no step at a later position is optimized.
\<close>

theorem C5_optimized_step_is_root_most:
  assumes "cssPath fuel s self = Some (Inr p)"
  shows "\<forall>i < length p. optimized (p ! i) \<longrightarrow> i = 0"
proof -
  from cssPath_Inr [OF assms] show ?thesis
  proof
    assume "nodeType (s (finderNode self)) \<noteq> ELEMENT_NODE \<and> p = []"
    then show ?thesis by simp
  next
    assume "\<exists>q. ascend fuel s (finderNode self) (Some (finderNode self)) [] = Some (Inr q) \<and> p = rev q"
    then obtain q where q: "ascend fuel s (finderNode self) (Some (finderNode self)) [] = Some (Inr q)"
      and p: "p = rev q" by blast
    from ascend_no_optimized_inside [OF q] have inner: "\<forall>st \<in> set (butlast q). \<not> optimized st"
      by simp
    show ?thesis
    proof (intro allI impI)
      fix i assume i: "i < length p" and o: "optimized (p ! i)"
      show "i = 0"
      proof (cases i)
        case 0
        then show ?thesis .
      next
        case (Suc j)
        from i p have "q \<noteq> []" by auto
        then have "rev q = last q # rev (butlast q)"
          by (induction q rule: rev_induct) simp_all
        with p have p': "p = last q # rev (butlast q)" by simp
        with i Suc have "j < length (rev (butlast q))" by simp
        then have "rev (butlast q) ! j \<in> set (rev (butlast q))" by (rule nth_mem)
        with p' Suc have "p ! i \<in> set (butlast q)" by simp
        with inner o show ?thesis by blast
      qed
    qed
  qed
qed

theorem C5_optimized_step_is_root_most_witness:
  "\<exists>p. cssPath 4 paragraphs \<lparr>finderNode = 5, minSpecificity = (0, 0, 0, 0), path = []\<rparr> = Some (Inr p)
     \<and> length p = 3 \<and> optimized (p ! 0)
     \<and> (\<forall>i < length p. optimized (p ! i) \<longrightarrow> i = 0)"
proof -
  have h: "cssPath 4 paragraphs \<lparr>finderNode = 5, minSpecificity = (0, 0, 0, 0), path = []\<rparr>
    = Some (Inr [\<lparr>stepValue = Some (js ''body''), optimized = True, node = 2, isTargetNode = False\<rparr>,
                 \<lparr>stepValue = Some (js ''div''), optimized = False, node = 3, isTargetNode = False\<rparr>,
                 \<lparr>stepValue = Some (js ''p''), optimized = False, node = 5, isTargetNode = True\<rparr>])"
    by (simp add: cssPath_def ascend_numeral step_defs doc_defs paragraphs_def)
  from C5_optimized_step_is_root_most [OF h] h show ?thesis by simp
qed

text \<open>
  C6 as stated fails, on three targets of \<open>inputs\<close>. The input with \<open>type=""\<close> has a
  \<open>type\<close> attribute and neither \<open>id\<close> nor \<open>class\<close>, and its fragment carries no
  decoration; the input with \<open>class=""\<close> has a \<open>class\<close> attribute and its fragment carries
  the decoration; the detached input has a \<open>type\<close> attribute and neither \<open>id\<close> nor
  \<open>class\<close>, and its step is the optimized \<open>input\<close>.
\<close>

theorem C6_counterexample:
  "getAttribute inputs 6 (js ''type'') = Some []
   \<and> getAttribute inputs 6 (js ''id'') = None \<and> getAttribute inputs 6 (js ''class'') = None
   \<and> toLowerCase (tagName (inputs 6)) = js ''input''
   \<and> computeStep inputs 6 True
       = Inr \<lparr>stepValue = Some (js ''input:nth-child(3)''), optimized = False\<rparr>
   \<and> getAttribute inputs 7 (js ''class'') = Some []
   \<and> computeStep inputs 7 True
       = Inr \<lparr>stepValue = Some (js ''input[type='' @ [34] @ js ''text'' @ [34] @ js '']:nth-child(4)''),
              optimized = False\<rparr>
   \<and> getAttribute inputs 8 (js ''type'') = Some (js ''text'')
   \<and> getAttribute inputs 8 (js ''id'') = None \<and> getAttribute inputs 8 (js ''class'') = None
   \<and> toLowerCase (tagName (inputs 8)) = js ''input''
   \<and> computeStep inputs 8 True = Inr \<lparr>stepValue = Some (js ''input''), optimized = True\<rparr>"
proof (intro conjI)
  show "computeStep inputs 6 True
       = Inr \<lparr>stepValue = Some (js ''input:nth-child(3)''), optimized = False\<rparr>"
    by (simp add: step_defs doc_defs inputs_def toString10.simps)
  show "computeStep inputs 7 True
       = Inr \<lparr>stepValue = Some (js ''input[type='' @ [34] @ js ''text'' @ [34] @ js '']:nth-child(4)''),
              optimized = False\<rparr>"
    by (simp add: step_defs doc_defs inputs_def toString10.simps)
  show "computeStep inputs 8 True = Inr \<lparr>stepValue = Some (js ''input''), optimized = True\<rparr>"
    by (simp add: step_defs doc_defs inputs_def)
qed (simp_all add: getAttribute_def inputs_def doc_defs toLowerCase_def isUpper_def)

text \<open>
  C6, amended. When \<open>computeStep\<close> returns a step, \<open>[type="<value>"]\<close> is appended to the
  tag, before the part for the writing mode, if and only if the step is for the target,
  the lowercased tag is \<open>input\<close>, the \<open>type\<close> attribute is present and not empty, \<open>id\<close>
  and \<open>class\<close> are each absent or empty, and the element has a parent that is not the
  document; in every other case, so for every step of a non-target ancestor, the step is
  an optimized one (\<open>#id\<close> or the tag) or the tag followed by the part for the writing
  mode alone.
\<close>

theorem C6_type_decoration:
  assumes "computeStep s n isTarget = Inr st"
  shows "if decorationConditions s n isTarget
         then \<exists>v wm. getAttribute s n (js ''type'') = Some v \<and> getWritingMode s n = Inr wm
                \<and> st = \<lparr>stepValue = Some (appendMode (toLowerCase (tagName (s n))
                                @ js ''[type='' @ [34] @ v @ [34] @ js '']'') wm),
                         optimized = False\<rparr>
         else (optimized st
                \<and> (stepValue st = Some (idSelector (the (getAttribute s n (js ''id''))))
                   \<or> stepValue st = Some (toLowerCase (tagName (s n)))))
              \<or> (\<exists>wm. getWritingMode s n = Inr wm
                   \<and> st = \<lparr>stepValue = Some (appendMode (toLowerCase (tagName (s n))) wm),
                            optimized = False\<rparr>)"
proof -
  from assms have el: "nodeType (s n) = ELEMENT_NODE"
    by (auto simp: computeStep_def split: if_splits)
  show ?thesis
  proof (cases "getOptimizedValue s n")
    case (Inl e)
    with assms el show ?thesis by (simp add: computeStep_def)
  next
    case (Inr ov)
    show ?thesis
    proof (cases ov)
      case (Some o1)
      with Inr assms el have st: "st = o1" by (simp add: computeStep_def)
      from Some Inr have g: "getOptimizedValue s n = Inr (Some o1)" by simp
      note facts = getOptimizedValue_Some [OF g]
      have inp: "js ''input'' \<notin> {js ''html'', js ''head'', js ''body''}"
        by (simp add: js_def)
      from facts have "\<not> decorationConditions s n isTarget"
        using inp by (auto simp: decorationConditions_def not_truthy_iff [symmetric])
      with facts st show ?thesis by simp
    next
      case None
      with Inr have g: "getOptimizedValue s n = Inr None" by simp
      from getOptimizedValue_None [OF g] obtain p where
        noid: "\<not> truthy (getAttribute s n (js ''id''))" and
        p: "parentNode (s n) = Some p" "nodeType (s p) \<noteq> DOCUMENT_NODE" by blast
      from p obtain wm where wm: "getWritingMode s n = Inr wm"
        by (simp add: getWritingMode_def Let_def)
      from computeStep_structural [OF el g wm, of isTarget] assms
      have st: "st = \<lparr>stepValue = Some (appendMode (toLowerCase (tagName (s n))
                    @ typeDecoration s n isTarget (toLowerCase (tagName (s n)))) wm),
                optimized = False\<rparr>" by simp
      have dc: "decorationConditions s n isTarget =
                  (isTarget \<and> toLowerCase (tagName (s n)) = js ''input''
                   \<and> truthy (getAttribute s n (js ''type''))
                   \<and> absentOrEmpty (getAttribute s n (js ''id''))
                   \<and> absentOrEmpty (getAttribute s n (js ''class'')))"
        using p by (simp add: decorationConditions_def truthy_iff)
      show ?thesis
      proof (cases "decorationConditions s n isTarget")
        case True
        with dc have t: "truthy (getAttribute s n (js ''type''))" by simp
        then obtain v where v: "getAttribute s n (js ''type'') = Some v"
          by (cases "getAttribute s n (js ''type'')") (simp_all add: truthy_def)
        have "typeDecoration s n isTarget (toLowerCase (tagName (s n)))
            = js ''[type='' @ [34] @ v @ [34] @ js '']''"
          by (subst typeDecoration_cases) (use True dc v in simp)
        with st v wm True show ?thesis by simp
      next
        case False
        have "typeDecoration s n isTarget (toLowerCase (tagName (s n))) = []"
          by (subst typeDecoration_cases) (use False dc in auto)
        with st wm False show ?thesis by simp
      qed
    qed
  qed
qed

theorem C6_type_decoration_witness:
  "computeStep inputs 5 True
     = Inr \<lparr>stepValue = Some (js ''input[type='' @ [34] @ js ''password'' @ [34] @ js '']:nth-child(2)''),
            optimized = False\<rparr>
   \<and> decorationConditions inputs 5 True
   \<and> (\<exists>v wm. getAttribute inputs 5 (js ''type'') = Some v \<and> getWritingMode inputs 5 = Inr wm
        \<and> \<lparr>stepValue = Some (js ''input[type='' @ [34] @ js ''password'' @ [34] @ js '']:nth-child(2)''),
            optimized = False\<rparr>
          = \<lparr>stepValue = Some (appendMode (toLowerCase (tagName (inputs 5))
                                @ js ''[type='' @ [34] @ v @ [34] @ js '']'') wm),
             optimized = False\<rparr>)"
proof -
  have h: "computeStep inputs 5 True
     = Inr \<lparr>stepValue = Some (js ''input[type='' @ [34] @ js ''password'' @ [34] @ js '']:nth-child(2)''),
            optimized = False\<rparr>"
    by (simp add: step_defs doc_defs inputs_def toString10.simps)
  have d: "decorationConditions inputs 5 True"
    by (simp add: decorationConditions_def absentOrEmpty_def getAttribute_def inputs_def
                  doc_defs toLowerCase_def isUpper_def)
  from C6_type_decoration [OF h] d h show ?thesis by simp
qed

text \<open>
  C7. For a target whose node type is not element, the constructor returns normally,
  with whatever fuel, the path is empty and \<open>toString\<close> gives the empty string.
\<close>

theorem C7_non_element_target:
  assumes "nodeType (s n) \<noteq> ELEMENT_NODE"
  shows "\<exists>finder. newCSSSelectorFinder fuel s n minSpec = Some (Inr finder)
           \<and> path finder = [] \<and> toString finder = []"
  using assms by (simp add: newCSSSelectorFinder_def cssPath_def toString_def)

theorem C7_non_element_target_witness:
  "nodeType (paragraphs 7) \<noteq> ELEMENT_NODE
   \<and> (\<exists>finder. newCSSSelectorFinder 0 paragraphs 7 None = Some (Inr finder)
           \<and> path finder = [] \<and> toString finder = [])"
proof -
  have h: "nodeType (paragraphs 7) \<noteq> ELEMENT_NODE"
    by (simp add: paragraphs_def otherNode_def)
  from C7_non_element_target [of paragraphs 7 0 None, OF h] h show ?thesis by blast
qed

text \<open>
  C8. The minimum specificity has no influence: for any two arguments (given or left to
  the default) the constructor gives the same outcome, the same step list and the same
  rendered selector.
\<close>

theorem C8_minSpecificity_ignored:
  "map_option (map_sum id path) (newCSSSelectorFinder fuel s n minSpec1)
     = map_option (map_sum id path) (newCSSSelectorFinder fuel s n minSpec2)
   \<and> map_option (map_sum id toString) (newCSSSelectorFinder fuel s n minSpec1)
     = map_option (map_sum id toString) (newCSSSelectorFinder fuel s n minSpec2)"
  by (simp add: newCSSSelectorFinder_def cssPath_def toString_def option.map_comp
                sum.map_comp comp_def Let_def)

text \<open>
  C9. For a target whose chain of parent-element links ends after \<open>d\<close> elements (its depth
  \<open>d\<close>), the loop of \<open>cssPath\<close> returns with fuel \<open>d\<close>, that is after at most \<open>d\<close>
  iterations, each iteration taking one unit; more fuel does not change the outcome.
\<close>

theorem C9_ascent_terminates_within_depth:
  assumes "elementDepth s (finderNode self) d"
  shows "(\<exists>r. cssPath d s self = Some r)
       \<and> (\<forall>fuel \<ge> d. cssPath fuel s self = cssPath d s self)"
proof (intro conjI allI impI)
  from ascend_enough_fuel [OF assms order_refl]
  show "\<exists>r. cssPath d s self = Some r"
    by (auto simp: cssPath_def)
next
  fix fuel assume "d \<le> fuel"
  from ascend_enough_fuel [OF assms this, of "finderNode self" "[]"]
  show "cssPath fuel s self = cssPath d s self"
    by (auto simp: cssPath_def)
qed

theorem C9_ascent_terminates_within_depth_witness:
  "elementDepth paragraphs 5 4
   \<and> cssPath 4 paragraphs \<lparr>finderNode = 5, minSpecificity = (0, 0, 0, 0), path = []\<rparr>
     = Some (Inr [\<lparr>stepValue = Some (js ''body''), optimized = True, node = 2, isTargetNode = False\<rparr>,
                 \<lparr>stepValue = Some (js ''div''), optimized = False, node = 3, isTargetNode = False\<rparr>,
                 \<lparr>stepValue = Some (js ''p''), optimized = False, node = 5, isTargetNode = True\<rparr>])
   \<and> cssPath 9 paragraphs \<lparr>finderNode = 5, minSpecificity = (0, 0, 0, 0), path = []\<rparr>
       = cssPath 4 paragraphs \<lparr>finderNode = 5, minSpecificity = (0, 0, 0, 0), path = []\<rparr>"
proof -
  have d1: "elementDepth paragraphs 1 (Suc 0)"
    by (rule elementDepth.top) (simp add: parentElement_def paragraphs_def doc_defs)
  have d2: "elementDepth paragraphs 2 (Suc (Suc 0))"
    by (rule elementDepth.below [OF _ d1]) (simp add: parentElement_def paragraphs_def doc_defs)
  have d3: "elementDepth paragraphs 3 (Suc (Suc (Suc 0)))"
    by (rule elementDepth.below [OF _ d2]) (simp add: parentElement_def paragraphs_def doc_defs)
  have "elementDepth paragraphs 5 (Suc (Suc (Suc (Suc 0))))"
    by (rule elementDepth.below [OF _ d3]) (simp add: parentElement_def paragraphs_def doc_defs)
  moreover have "Suc (Suc (Suc (Suc 0))) = 4" by simp
  ultimately have h: "elementDepth paragraphs (finderNode \<lparr>finderNode = 5, minSpecificity = (0, 0, 0, 0), path = []\<rparr>) 4"
    by simp
  have v: "cssPath 4 paragraphs \<lparr>finderNode = 5, minSpecificity = (0, 0, 0, 0), path = []\<rparr>
     = Some (Inr [\<lparr>stepValue = Some (js ''body''), optimized = True, node = 2, isTargetNode = False\<rparr>,
                 \<lparr>stepValue = Some (js ''div''), optimized = False, node = 3, isTargetNode = False\<rparr>,
                 \<lparr>stepValue = Some (js ''p''), optimized = False, node = 5, isTargetNode = True\<rparr>])"
    by (simp add: cssPath_def ascend_numeral step_defs doc_defs paragraphs_def)
  from C9_ascent_terminates_within_depth [OF h] h v show ?thesis by simp
qed

text \<open>
  C10. \<open>computeStep\<close> evaluates \<open>getWritingMode\<close> only where \<open>getOptimizedValue\<close> has
  returned null. There the parent link is not null and the parent is not a document
  node, so that \<open>getWritingMode\<close> returns; and \<open>computeStep\<close> never fails with the
  TypeError of a null parent, for any node.
\<close>

theorem C10_parent_present_when_getWritingMode_runs:
  "(getOptimizedValue s n = Inr None \<longrightarrow>
      (\<exists>p wm. parentNode (s n) = Some p \<and> nodeType (s p) \<noteq> DOCUMENT_NODE
          \<and> getWritingMode s n = Inr wm))
   \<and> computeStep s n isTarget \<noteq> Inl TypeError"
proof (intro conjI impI)
  assume a: "getOptimizedValue s n = Inr None"
  from getOptimizedValue_None [OF a] obtain p where
    p: "parentNode (s n) = Some p" "nodeType (s p) \<noteq> DOCUMENT_NODE" by blast
  then show "\<exists>p wm. parentNode (s n) = Some p \<and> nodeType (s p) \<noteq> DOCUMENT_NODE
          \<and> getWritingMode s n = Inr wm"
    by (simp add: getWritingMode_def Let_def)
next
  show "computeStep s n isTarget \<noteq> Inl TypeError"
  proof (cases "getOptimizedValue s n")
    case (Inl e)
    then have "e = ChildOfDocumentMustBeHtml"
      by (auto simp: getOptimizedValue_def Let_def split: if_splits option.splits)
    with Inl show ?thesis by (simp add: computeStep_def)
  next
    case (Inr v)
    show ?thesis
    proof (cases v)
      case None
      with Inr have a: "getOptimizedValue s n = Inr None" by simp
      from getOptimizedValue_None [OF a] obtain p where "parentNode (s n) = Some p" by blast
      then obtain wm where "getWritingMode s n = Inr wm"
        by (simp add: getWritingMode_def Let_def)
      with a show ?thesis by (simp add: computeStep_def Let_def)
    next
      case (Some st)
      with Inr show ?thesis by (simp add: computeStep_def)
    qed
  qed
qed

theorem C10_parent_present_when_getWritingMode_runs_witness:
  "getOptimizedValue paragraphs 5 = Inr None
   \<and> (\<exists>p wm. parentNode (paragraphs 5) = Some p \<and> nodeType (paragraphs p) \<noteq> DOCUMENT_NODE
          \<and> getWritingMode paragraphs 5 = Inr wm)
   \<and> computeStep paragraphs 5 True \<noteq> Inl TypeError"
proof -
  have h: "getOptimizedValue paragraphs 5 = Inr None"
    by (simp add: step_defs doc_defs paragraphs_def)
  from C10_parent_present_when_getWritingMode_runs [of paragraphs 5 True] h
  show ?thesis by blast
qed

end
